theory Spec2Isabelle
  imports Main
begin

section \<open>The upload queue of the file uploader\<close>

text \<open>
  A shallow embedding of the hook \<open>useUploadQueue\<close> (the queue coordinator) and of the
  parts of \<open>UploadService\<close> (the transfer client) that classify a server response and
  run the retry loop.

  The hook is event driven and single threaded. Every callback of the source runs
  to its next \<open>await\<close> without interruption, so each such piece is one function from
  state to state here. What the outside world decides is a parameter of the function
  that consumes it: the ids that \<open>generateId\<close> returns, the clock \<open>Date.now()\<close>, the
  outcome of \<open>uploadService.deleteFile\<close> and the outcome of each transfer attempt.
  The refs \<open>filesRef\<close> and \<open>uploadingRef\<close> mirror the state after every render, and
  \<open>processingRef\<close> is set while the scheduling loop runs, which is while \<open>isProcessing\<close>
  holds; the model reads the state where the source reads a ref.
\<close>

subsection \<open>Data (types/upload.ts)\<close>

datatype UploadStatus = Pending | Uploading | Completed | Failed

text \<open>A \<open>File\<close> is opaque to the queue; it is represented by its name.\<close>

type_synonym File = string

text \<open>
  \<open>FileUploadItem\<close>. The field \<open>id\<close> of the source is \<open>item_id\<close>, since \<open>id\<close> is the
  identity function of HOL, and \<open>file\<close> is \<open>file_obj\<close>. An optional field is an
  \<open>option\<close>, \<open>None\<close> for \<open>undefined\<close>.
\<close>

record FileUploadItem =
  item_id :: string
  file_obj :: File
  status :: UploadStatus
  progress :: int
  retryCount :: int
  error :: "string option"
  uploadStartTime :: "nat option"
  uploadEndTime :: "nat option"
  s3Key :: "string option"
  fileUrl :: "string option"

text \<open>
  \<open>UploadQueueState\<close>. The \<open>Set<string>\<close> of uploading ids is a list without
  duplicates in insertion order, which is how a JavaScript \<open>Set\<close> iterates.
\<close>

record UploadQueueState =
  files :: "FileUploadItem list"
  uploading :: "string list"
  isProcessing :: bool

text \<open>\<open>UseUploadQueueOptions\<close>; \<open>retryDelay\<close> is read and never used by the hook.\<close>

record UseUploadQueueOptions =
  maxConcurrent :: int
  maxRetries :: int
  autoStart :: bool

text \<open>The interface \<open>UploadError\<close> of uploadService.ts.\<close>

record UploadError =
  message :: string
  retryable :: bool
  code :: string

text \<open>
  \<open>UploadResult\<close>, as far as the hook reads it: \<open>res_s3Key\<close> is the value of
  \<open>result.data?.data?.s3Key\<close> and \<open>res_fileUrl\<close> that of \<open>result.data?.data?.fileUrl\<close>.
\<close>

record UploadResult =
  res_fileId :: string
  res_s3Key :: "string option"
  res_fileUrl :: "string option"

definition initial_state :: UploadQueueState where
  "initial_state = \<lparr>files = [], uploading = [], isProcessing = False\<rparr>"

subsection \<open>Set operations on the uploading ids\<close>

text \<open>\<open>new Set([...prev, x])\<close>\<close>

definition set_add :: "string \<Rightarrow> string list \<Rightarrow> string list" where
  "set_add x xs = (if x \<in> set xs then xs else xs @ [x])"

text \<open>\<open>const n = new Set(prev); n.delete(x)\<close>\<close>

definition set_delete :: "string \<Rightarrow> string list \<Rightarrow> string list" where
  "set_delete x xs = filter (\<lambda>y. y \<noteq> x) xs"

text \<open>
  A string in a condition: \<open>undefined\<close> and the empty string are falsy
  (\<open>file.s3Key && ...\<close>).
\<close>

definition truthy_str :: "string option \<Rightarrow> bool" where
  "truthy_str k = (case k of None \<Rightarrow> False | Some v \<Rightarrow> v \<noteq> [])"

subsection \<open>Commands of the hook\<close>

text \<open>
  \<open>addFiles\<close>. Each new file comes with the id that \<open>generateId()\<close> returned for it.
\<close>

definition new_item :: "string \<times> File \<Rightarrow> FileUploadItem" where
  "new_item p = \<lparr>item_id = fst p, file_obj = snd p, status = Pending, progress = 0,
     retryCount = 0, error = None, uploadStartTime = None, uploadEndTime = None,
     s3Key = None, fileUrl = None\<rparr>"

definition addFiles ::
  "UseUploadQueueOptions \<Rightarrow> (string \<times> File) list \<Rightarrow> UploadQueueState \<Rightarrow> UploadQueueState" where
  "addFiles opts newFiles s =
     s\<lparr>files := files s @ map new_item newFiles,
       isProcessing := (if autoStart opts \<and> \<not> isProcessing s then True else isProcessing s)\<rparr>"

definition retryFile :: "string \<Rightarrow> UploadQueueState \<Rightarrow> UploadQueueState" where
  "retryFile fileId s =
     s\<lparr>files := map (\<lambda>f. if item_id f = fileId
                           then f\<lparr>status := Pending, progress := 0, error := None\<rparr>
                           else f) (files s),
       isProcessing := (if \<not> isProcessing s then True else isProcessing s)\<rparr>"

definition delete_error :: string where
  "delete_error = ''Failed to delete from storage''"

text \<open>
  \<open>removeFile\<close> runs in pieces around \<open>await uploadService.deleteFile(file.s3Key)\<close>.
  Cancelling the transfer and the retry timer touches no state of the hook.

  The removal itself, which the callback reaches at once when there is nothing to
  delete remotely, and after the \<open>await\<close> when the deletion succeeded.
\<close>

definition removeFile_remove :: "string \<Rightarrow> UploadQueueState \<Rightarrow> UploadQueueState" where
  "removeFile_remove fileId s =
     s\<lparr>files := filter (\<lambda>f. item_id f \<noteq> fileId) (files s),
       uploading := set_delete fileId (uploading s)\<rparr>"

text \<open>
  The first piece: it looks the file up and either removes it at once or starts the
  remote deletion of its key and waits. The result is the state it leaves and the key
  whose deletion it waits for, if any.
\<close>

definition removeFile_begin :: "string \<Rightarrow> UploadQueueState \<Rightarrow> UploadQueueState \<times> string option" where
  "removeFile_begin fileId s =
     (case find (\<lambda>f. item_id f = fileId) (files s) of
        None \<Rightarrow> (removeFile_remove fileId s, None)
      | Some f \<Rightarrow>
          if truthy_str (s3Key f) \<and> status f = Completed then
            (case s3Key f of
               None \<Rightarrow> (removeFile_remove fileId s, None)
             | Some k \<Rightarrow> (s, Some k))
          else (removeFile_remove fileId s, None))"

text \<open>The \<open>catch\<close> block, which runs on the state as it is when the deletion has failed.\<close>

definition removeFile_rejected :: "string \<Rightarrow> UploadQueueState \<Rightarrow> UploadQueueState" where
  "removeFile_rejected fileId s =
     s\<lparr>files := map (\<lambda>g. if item_id g = fileId
                           then g\<lparr>error := Some delete_error\<rparr>
                           else g) (files s)\<rparr>"

text \<open>
  The whole callback when nothing else happens during the \<open>await\<close>. \<open>deleteFile k\<close>
  tells whether \<open>uploadService.deleteFile(k)\<close> resolves (\<open>True\<close>) or throws (\<open>False\<close>).
\<close>

definition removeFile ::
  "(string \<Rightarrow> bool) \<Rightarrow> string \<Rightarrow> UploadQueueState \<Rightarrow> UploadQueueState" where
  "removeFile deleteFile fileId s =
     (case removeFile_begin fileId s of
        (s1, None) \<Rightarrow> s1
      | (s1, Some k) \<Rightarrow>
          if deleteFile k then removeFile_remove fileId s1 else removeFile_rejected fileId s1)"

text \<open>
  \<open>clearCompleted\<close> runs in pieces too. The first piece takes \<open>completedFiles\<close> from
  the files as they are at the call. The loop over them awaits one deletion after the
  other and sorts their ids into \<open>successfullyDeletedIds\<close> and \<open>failedDeleteIds\<close>;
  only the second list is read afterwards.
\<close>

definition completedFiles :: "UploadQueueState \<Rightarrow> FileUploadItem list" where
  "completedFiles s = filter (\<lambda>f. status f = Completed \<and> truthy_str (s3Key f)) (files s)"

fun delete_loop ::
  "(string \<Rightarrow> bool) \<Rightarrow> FileUploadItem list \<Rightarrow> string list \<times> string list" where
  "delete_loop deleteFile [] = ([], [])"
| "delete_loop deleteFile (f # fs) =
     (let (ok, bad) = delete_loop deleteFile fs
      in case s3Key f of
           None \<Rightarrow> (ok, bad)
         | Some k \<Rightarrow>
             if k = [] then (ok, bad)
             else if deleteFile k then (item_id f # ok, bad)
             else (ok, item_id f # bad))"

definition failedDeleteIds :: "(string \<Rightarrow> bool) \<Rightarrow> UploadQueueState \<Rightarrow> string list" where
  "failedDeleteIds deleteFile s = snd (delete_loop deleteFile (completedFiles s))"

text \<open>
  The last piece, after the loop: the two updates of the files, which run on the state
  as it is then, with the ids whose deletion failed.
\<close>

definition clearCompleted_finish :: "string list \<Rightarrow> UploadQueueState \<Rightarrow> UploadQueueState" where
  "clearCompleted_finish bad s =
     (let marked = (if length bad > 0
                    then map (\<lambda>f. if item_id f \<in> set bad
                                   then f\<lparr>error := Some delete_error\<rparr> else f) (files s)
                    else files s)
      in s\<lparr>files := filter (\<lambda>f. (status f = Completed \<and> item_id f \<in> set bad)
                                 \<or> (status f \<noteq> Completed \<and> status f \<noteq> Failed)) marked\<rparr>)"

text \<open>The whole callback when nothing else happens during the deletions.\<close>

definition clearCompleted :: "(string \<Rightarrow> bool) \<Rightarrow> UploadQueueState \<Rightarrow> UploadQueueState" where
  "clearCompleted deleteFile s = clearCompleted_finish (failedDeleteIds deleteFile s) s"

definition startProcessing :: "UploadQueueState \<Rightarrow> UploadQueueState" where
  "startProcessing s = s\<lparr>isProcessing := True\<rparr>"

definition stopProcessing :: "UploadQueueState \<Rightarrow> UploadQueueState" where
  "stopProcessing s = s\<lparr>isProcessing := False, uploading := []\<rparr>"

subsection \<open>One upload (the callback \<open>uploadFile\<close>)\<close>

text \<open>
  The callback runs in two pieces around \<open>await uploadService.uploadWithRetry(...)\<close>.
  The first piece marks the item as uploading; \<open>now\<close> is \<open>Date.now()\<close>.
\<close>

definition uploadFile_begin :: "nat \<Rightarrow> string \<Rightarrow> UploadQueueState \<Rightarrow> UploadQueueState" where
  "uploadFile_begin now fileId s =
     (case find (\<lambda>f. item_id f = fileId) (files s) of
        None \<Rightarrow> s
      | Some file \<Rightarrow>
          s\<lparr>uploading := set_add (item_id file) (uploading s),
            files := map (\<lambda>f. if item_id f = item_id file
                                then f\<lparr>status := Uploading, uploadStartTime := Some now\<rparr>
                                else f) (files s)\<rparr>)"

text \<open>The progress callback handed to the service.\<close>

definition onProgress :: "string \<Rightarrow> int \<Rightarrow> UploadQueueState \<Rightarrow> UploadQueueState" where
  "onProgress fileId p s =
     s\<lparr>files := map (\<lambda>f. if item_id f = fileId then f\<lparr>progress := p\<rparr> else f) (files s)\<rparr>"

text \<open>
  The second piece runs when \<open>uploadWithRetry\<close> has settled: \<open>Inr result\<close> when it
  returned, \<open>Inl e\<close> when it threw \<open>e\<close>, where \<open>e\<close> is \<open>None\<close> for the \<open>null\<close> that
  \<open>throw lastError\<close> throws when no attempt was made. For a thrown value that is not
  an \<open>Error\<close> the message is \<open>Upload failed\<close>.
\<close>

definition uploadFile_settle ::
  "UseUploadQueueOptions \<Rightarrow> nat \<Rightarrow> string \<Rightarrow> UploadError option + UploadResult
     \<Rightarrow> UploadQueueState \<Rightarrow> UploadQueueState" where
  "uploadFile_settle opts now fileId outcome s =
     (case outcome of
        Inr result \<Rightarrow>
          s\<lparr>uploading := set_delete fileId (uploading s),
            files := map (\<lambda>f. if item_id f = fileId
                                then f\<lparr>status := Completed, progress := 100,
                                       uploadEndTime := Some now, error := None,
                                       s3Key := res_s3Key result,
                                       fileUrl := res_fileUrl result\<rparr>
                                else f) (files s)\<rparr>
      | Inl err \<Rightarrow>
          s\<lparr>uploading := set_delete fileId (uploading s),
            files := map (\<lambda>f. if item_id f = fileId
                                then f\<lparr>status := Failed, uploadEndTime := Some now,
                                       error := Some (case err of
                                                        Some e \<Rightarrow> message e
                                                      | None \<Rightarrow> ''Upload failed''),
                                       retryCount := maxRetries opts\<rparr>
                                else f) (files s)\<rparr>)"

subsection \<open>The retry loop of the service (\<open>uploadWithRetry\<close>)\<close>

definition RETRY_DELAYS :: "nat list" where
  "RETRY_DELAYS = [1000, 2000, 4000]"

text \<open>
  \<open>up attempt\<close> is the outcome of \<open>this.uploadFile(fileId, file, {..., retryAttempt:
  attempt})\<close>: \<open>Inr\<close> when the promise resolves, \<open>Inl\<close> when it rejects. The loop
  returns what \<open>uploadWithRetry\<close> returns or throws, the values of \<open>attempt\<close> for
  which a transfer was made, and the delays it waited, in order.
\<close>

function uploadWithRetry_loop ::
  "(int \<Rightarrow> UploadError + UploadResult) \<Rightarrow> int \<Rightarrow> int \<Rightarrow> UploadError option
     \<Rightarrow> int list \<Rightarrow> nat list
     \<Rightarrow> (UploadError option + UploadResult) \<times> int list \<times> nat list" where
  "uploadWithRetry_loop up maxR attempt lastError atts delays =
     (if attempt \<le> maxR then
        (case up attempt of
           Inr result \<Rightarrow> (Inr result, atts @ [attempt], delays)
         | Inl e \<Rightarrow>
             if \<not> retryable e \<or> attempt = maxR then (Inl (Some e), atts @ [attempt], delays)
             else if attempt < maxR then
               uploadWithRetry_loop up maxR (attempt + 1) (Some e) (atts @ [attempt])
                 (delays @ [RETRY_DELAYS ! nat (min attempt (int (length RETRY_DELAYS) - 1))])
             else
               uploadWithRetry_loop up maxR (attempt + 1) (Some e) (atts @ [attempt]) delays)
      else (Inl lastError, atts, delays))"
  by pat_completeness auto
termination
  by (relation "measure (\<lambda>(up, maxR, attempt, lastError, atts, delays). nat (maxR + 1 - attempt))")
    auto

definition uploadWithRetry ::
  "(int \<Rightarrow> UploadError + UploadResult) \<Rightarrow> int
     \<Rightarrow> (UploadError option + UploadResult) \<times> int list \<times> nat list" where
  "uploadWithRetry up maxR = uploadWithRetry_loop up maxR 0 None [] []"

text \<open>
  The whole callback for one item when nothing else happens in between: mark the item,
  run the retry loop, record the outcome.
\<close>

definition uploadFile ::
  "UseUploadQueueOptions \<Rightarrow> (int \<Rightarrow> UploadError + UploadResult) \<Rightarrow> nat \<Rightarrow> nat \<Rightarrow> string
     \<Rightarrow> UploadQueueState \<Rightarrow> UploadQueueState" where
  "uploadFile opts up started ended fileId s =
     (case find (\<lambda>f. item_id f = fileId) (files s) of
        None \<Rightarrow> s
      | Some file \<Rightarrow>
          uploadFile_settle opts ended (item_id file)
            (fst (uploadWithRetry up (maxRetries opts)))
            (uploadFile_begin started fileId s))"

subsection \<open>The scheduling loop (\<open>processLoop\<close>)\<close>

definition pendingFiles :: "UploadQueueState \<Rightarrow> FileUploadItem list" where
  "pendingFiles s = filter (\<lambda>f. status f = Pending) (files s)"

definition availableSlots :: "UseUploadQueueOptions \<Rightarrow> UploadQueueState \<Rightarrow> int" where
  "availableSlots opts s = maxConcurrent opts - int (length (uploading s))"

text \<open>\<open>pendingFiles.slice(0, availableSlots)\<close> under its guard; nothing otherwise.\<close>

definition filesToUpload :: "UseUploadQueueOptions \<Rightarrow> UploadQueueState \<Rightarrow> FileUploadItem list" where
  "filesToUpload opts s =
     (if availableSlots opts s > 0 \<and> length (pendingFiles s) > 0
      then take (nat (availableSlots opts s)) (pendingFiles s)
      else [])"

text \<open>
  One evaluation of \<open>processLoop\<close>: it starts \<open>uploadFile\<close> for each file to upload,
  of which the first piece runs at once, and clears the processing flag when the
  snapshot it read had no pending and no uploading item. The timer that calls it
  again is the environment's.
\<close>

definition processLoop ::
  "UseUploadQueueOptions \<Rightarrow> nat \<Rightarrow> UploadQueueState \<Rightarrow> UploadQueueState" where
  "processLoop opts now s =
     (let s1 = fold (\<lambda>f. uploadFile_begin now (item_id f)) (filesToUpload opts s) s;
          hasWork = (length (pendingFiles s) > 0 \<or> length (uploading s) > 0)
      in if isProcessing s then (if hasWork then s1 else s1\<lparr>isProcessing := False\<rparr>)
         else s1)"

subsection \<open>Event traces\<close>

text \<open>
  What can happen to the queue, one event per uninterrupted piece of code. The
  scheduling loop is alive only while the processing flag is set. A \<open>Settle\<close> event
  is the second piece of \<open>uploadFile\<close>; the model allows it for any id at any time,
  which covers every interleaving of the transfers in flight.

  \<open>RemoveFile\<close> is the first piece of \<open>removeFile\<close>; \<open>DeleteResolved\<close> and
  \<open>DeleteRejected\<close> are its pieces after the \<open>await\<close>. \<open>ClearCompleted\<close> is the
  first piece of \<open>clearCompleted\<close>, which runs to the end at once when there is nothing
  to delete; \<open>ClearFinished bad\<close> is its last piece, with the ids whose deletion
  failed. The model allows these later pieces for any id, any list of ids and at any
  time too, so that any other event can fall between a call and its completion.
\<close>

datatype Event =
    AddFiles "(string \<times> File) list"
  | RetryFile string
  | RemoveFile string
  | DeleteResolved string
  | DeleteRejected string
  | ClearCompleted
  | ClearFinished "string list"
  | StartProcessing
  | StopProcessing
  | ProcessLoop nat
  | Progress string int
  | Settle nat string "UploadError option + UploadResult"

fun step :: "UseUploadQueueOptions \<Rightarrow> Event \<Rightarrow> UploadQueueState \<Rightarrow> UploadQueueState" where
  "step opts (AddFiles newFiles) s = addFiles opts newFiles s"
| "step opts (RetryFile fileId) s = retryFile fileId s"
| "step opts (RemoveFile fileId) s = fst (removeFile_begin fileId s)"
| "step opts (DeleteResolved fileId) s = removeFile_remove fileId s"
| "step opts (DeleteRejected fileId) s = removeFile_rejected fileId s"
| "step opts ClearCompleted s =
     (if completedFiles s = [] then clearCompleted_finish [] s else s)"
| "step opts (ClearFinished bad) s = clearCompleted_finish bad s"
| "step opts StartProcessing s = startProcessing s"
| "step opts StopProcessing s = stopProcessing s"
| "step opts (ProcessLoop now) s = (if isProcessing s then processLoop opts now s else s)"
| "step opts (Progress fileId p) s = onProgress fileId p s"
| "step opts (Settle now fileId outcome) s = uploadFile_settle opts now fileId outcome s"

definition run :: "UseUploadQueueOptions \<Rightarrow> Event list \<Rightarrow> UploadQueueState \<Rightarrow> UploadQueueState" where
  "run opts evs s = fold (step opts) evs s"

text \<open>The ids that \<open>generateId\<close> hands out along a trace; it never repeats one.\<close>

fun generated :: "Event \<Rightarrow> string list" where
  "generated (AddFiles newFiles) = map fst newFiles"
| "generated _ = []"

definition ids_unique :: "Event list \<Rightarrow> bool" where
  "ids_unique evs = distinct (concat (map generated evs))"

fun is_stop :: "Event \<Rightarrow> bool" where
  "is_stop StopProcessing = True"
| "is_stop _ = False"

definition count_uploading :: "UploadQueueState \<Rightarrow> nat" where
  "count_uploading s = length (filter (\<lambda>f. status f = Uploading) (files s))"

subsection \<open>Statistics\<close>

record Stats =
  total :: nat
  pending :: nat
  stat_uploading :: nat
  completed :: nat
  failed :: nat

definition stats :: "UploadQueueState \<Rightarrow> Stats" where
  "stats s = \<lparr>total = length (files s),
     pending = length (filter (\<lambda>f. status f = Pending) (files s)),
     stat_uploading = length (filter (\<lambda>f. status f = Uploading) (files s)),
     completed = length (filter (\<lambda>f. status f = Completed) (files s)),
     failed = length (filter (\<lambda>f. status f = Failed) (files s))\<rparr>"

subsection \<open>The response handler of the service (\<open>xhr.onload\<close>)\<close>

text \<open>
  A JavaScript value as \<open>JSON.parse\<close> and property reads produce it. An object is
  the list of its own properties. A number is represented by an integer: the handler
  only asks whether a number is zero.
\<close>

datatype jsval =
    JUndefined | JNull | JBool bool | JNum int | JStr string
  | JArr "jsval list" | JObj "(string \<times> jsval) list"

text \<open>The value in a condition, with \<open>||\<close> and with \<open>&&\<close>.\<close>

fun truthy :: "jsval \<Rightarrow> bool" where
  "truthy JUndefined = False"
| "truthy JNull = False"
| "truthy (JBool b) = b"
| "truthy (JNum n) = (n \<noteq> 0)"
| "truthy (JStr s) = (s \<noteq> [])"
| "truthy (JArr xs) = True"
| "truthy (JObj kvs) = True"

text \<open>Reading a property of \<open>null\<close> or \<open>undefined\<close> throws a \<open>TypeError\<close>.\<close>

fun nullish :: "jsval \<Rightarrow> bool" where
  "nullish JUndefined = True"
| "nullish JNull = True"
| "nullish v = False"

text \<open>
  \<open>v.k\<close> for a \<open>v\<close> that is not nullish and a key \<open>k\<close> that names no built-in
  property (the handler reads \<open>success\<close>, \<open>data\<close>, \<open>meta\<close>, \<open>error\<close>, \<open>message\<close>,
  \<open>retryable\<close> and \<open>code\<close>): the property of an object, \<open>undefined\<close> elsewhere.
\<close>

fun get :: "jsval \<Rightarrow> string \<Rightarrow> jsval" where
  "get (JObj kvs) k = (case map_of kvs k of None \<Rightarrow> JUndefined | Some v \<Rightarrow> v)"
| "get v k = JUndefined"

text \<open>\<open>a || b\<close>\<close>

definition or_else :: "jsval \<Rightarrow> jsval \<Rightarrow> jsval" where
  "or_else a b = (if truthy a then a else b)"

text \<open>The decimal numeral of \<open>xhr.status\<close> in a template string.\<close>

fun string_of_nat :: "nat \<Rightarrow> string" where
  "string_of_nat n =
     (if n < 10 then [''0123456789'' ! n]
      else string_of_nat (n div 10) @ [''0123456789'' ! (n mod 10)])"

declare string_of_nat.simps [simp del]

text \<open>\<open>`HTTP ${xhr.status}: ${xhr.statusText}`\<close> and \<open>`HTTP_${xhr.status}`\<close>\<close>

definition http_message :: "nat \<Rightarrow> string \<Rightarrow> string" where
  "http_message xhr_status statusText = ''HTTP '' @ string_of_nat xhr_status @ '': '' @ statusText"

definition http_code :: "nat \<Rightarrow> string" where
  "http_code xhr_status = ''HTTP_'' @ string_of_nat xhr_status"

text \<open>
  How the handler settles the promise: \<open>Resolve data meta\<close> for \<open>resolve({success:
  true, fileId, data, meta})\<close>, and \<open>Reject message retryable code\<close> for
  \<open>reject(this.createUploadError(message, retryable, code))\<close>, with the arguments as
  the handler computes them.
\<close>

datatype settled = Resolve jsval jsval | Reject jsval jsval jsval

text \<open>
  \<open>xhr.onload\<close>. \<open>parsed\<close> is the result of \<open>JSON.parse(xhr.responseText)\<close>, \<open>None\<close>
  when it throws. Both \<open>try\<close> blocks also catch the \<open>TypeError\<close> of reading a
  property of \<open>null\<close>. Removing the request from \<open>activeUploads\<close> is left out.
\<close>

definition onload :: "nat \<Rightarrow> string \<Rightarrow> jsval option \<Rightarrow> settled" where
  "onload xhr_status statusText parsed =
     (if xhr_status = 200 then
        (case parsed of
           None \<Rightarrow>
             Reject (JStr ''Invalid response format from server'') (JBool False) (JStr ''PARSE_ERROR'')
         | Some response \<Rightarrow>
             if nullish response then
               Reject (JStr ''Invalid response format from server'') (JBool False)
                 (JStr ''PARSE_ERROR'')
             else if truthy (get response ''success'') \<and> truthy (get response ''data'') then
               Resolve (get response ''data'') (get response ''meta'')
             else
               (let err = or_else (get response ''error'')
                              (JObj [(''message'', JStr ''Unknown server error'')])
                in Reject (get err ''message'')
                     (or_else (get err ''retryable'') (JBool False))
                     (get err ''code'')))
      else
        (case parsed of
           None \<Rightarrow>
             Reject (JStr (http_message xhr_status statusText)) (JBool (xhr_status \<ge> 500))
               (JStr (http_code xhr_status))
         | Some errorResponse \<Rightarrow>
             if nullish errorResponse then
               Reject (JStr (http_message xhr_status statusText)) (JBool (xhr_status \<ge> 500))
                 (JStr (http_code xhr_status))
             else
               (let err = or_else (get errorResponse ''error'') (JObj [])
                in Reject (or_else (get err ''message'') (JStr (http_message xhr_status statusText)))
                     (JBool (get err ''retryable'' \<noteq> JBool False))
                     (or_else (get err ''code'') (JStr (http_code xhr_status))))))"

text \<open>The \<open>retryable\<close> flag of the error, when the promise is rejected.\<close>

fun rejected_retryable :: "settled \<Rightarrow> jsval option" where
  "rejected_retryable (Reject m r c) = Some r"
| "rejected_retryable (Resolve d m) = None"

text \<open>\<open>errorResponse.error || {}\<close>\<close>

definition error_body :: "jsval \<Rightarrow> jsval" where
  "error_body body = or_else (get body ''error'') (JObj [])"

text \<open>Two error bodies: one without a \<open>retryable\<close> field, one that sets it to \<open>false\<close>.\<close>

definition not_found_body :: jsval where
  "not_found_body = JObj [(''error'', JObj [(''message'', JStr ''File type not allowed'')])]"

definition refused_body :: jsval where
  "refused_body = JObj [(''error'', JObj [(''message'', JStr ''Too large''), (''retryable'', JBool False)])]"

subsection \<open>Invariants of the queue\<close>

text \<open>The ids of the items, in queue order.\<close>

definition ids :: "UploadQueueState \<Rightarrow> string list" where
  "ids s = map item_id (files s)"

text \<open>Every item that is marked as uploading has its id in the set of uploading ids.\<close>

definition covered :: "UploadQueueState \<Rightarrow> bool" where
  "covered s = (\<forall>f \<in> set (files s). status f = Uploading \<longrightarrow> item_id f \<in> set (uploading s))"

definition cap_inv :: "UseUploadQueueOptions \<Rightarrow> UploadQueueState \<Rightarrow> bool" where
  "cap_inv opts s =
     (distinct (ids s) \<and> distinct (uploading s)
      \<and> int (length (uploading s)) \<le> maxConcurrent opts
      \<and> covered s)"

text \<open>Options and a trace for the examples: three files, ceiling two, one evaluation.\<close>

definition demo_opts :: UseUploadQueueOptions where
  "demo_opts = \<lparr>maxConcurrent = 2, maxRetries = 3, autoStart = True\<rparr>"

definition ceiling_trace :: "Event list" where
  "ceiling_trace =
     [AddFiles [(''a'', ''a.txt''), (''b'', ''b.txt''), (''c'', ''c.txt'')], ProcessLoop 5]"

text \<open>Four files, the queue stopped while two are uploading, then started again.\<close>

definition restart_trace :: "Event list" where
  "restart_trace =
     [AddFiles [(''a'', ''a.txt''), (''b'', ''b.txt''), (''c'', ''c.txt''), (''d'', ''d.txt'')],
      ProcessLoop 1, StopProcessing, StartProcessing, ProcessLoop 2]"

text \<open>What the first piece of \<open>uploadFile\<close> does to the item it finds.\<close>

definition mark_uploading :: "nat \<Rightarrow> FileUploadItem \<Rightarrow> FileUploadItem" where
  "mark_uploading now f = f\<lparr>status := Uploading, uploadStartTime := Some now\<rparr>"

text \<open>A queue of three pending files.\<close>

definition three_pending :: UploadQueueState where
  "three_pending =
     addFiles demo_opts [(''a'', ''a.txt''), (''b'', ''b.txt''), (''c'', ''c.txt'')] initial_state"

subsection \<open>Auxiliary definitions and example queues\<close>

text \<open>
  The definitions below name parts of the functions above, for the proofs, and fix
  the concrete queues at which the theorems are evaluated.
\<close>





text \<open>The marking of \<open>removeFile\<close> when the deletion failed.\<close>

definition mark_one :: "string \<Rightarrow> FileUploadItem \<Rightarrow> FileUploadItem" where
  "mark_one fileId g = (if item_id g = fileId then g\<lparr>error := Some delete_error\<rparr> else g)"

text \<open>The error that \<open>xhr.onerror\<close> rejects with.\<close>

definition network_error :: UploadError where
  "network_error = \<lparr>message = ''Network error - please check your connection'',
     retryable = True, code = ''NETWORK_ERROR''\<rparr>"

text \<open>
  Remote stores for the examples: one that refuses every deletion, one that accepts
  every deletion, one that accepts only the key \<open>k2\<close>.
\<close>

definition always_fails :: "string \<Rightarrow> bool" where
  "always_fails k = False"

definition always_succeeds :: "string \<Rightarrow> bool" where
  "always_succeeds k = True"

definition delete_only_k2 :: "string \<Rightarrow> bool" where
  "delete_only_k2 k = (k = ''k2'')"

text \<open>A successful upload that the server stored under key \<open>k\<close>.\<close>

definition stored :: "string \<Rightarrow> string \<Rightarrow> UploadError option + UploadResult" where
  "stored i k = Inr \<lparr>res_fileId = i, res_s3Key = Some k, res_fileUrl = Some (''https://files/'' @ k)\<rparr>"

text \<open>One file, uploaded and completed.\<close>

definition completed_trace :: "Event list" where
  "completed_trace = [AddFiles [(''a'', ''a.txt'')], ProcessLoop 1, Settle 2 ''a'' (stored ''a'' ''k1'')]"

definition completed_state :: UploadQueueState where
  "completed_state = run demo_opts completed_trace initial_state"

text \<open>One file, whose upload failed for good.\<close>

definition failed_trace :: "Event list" where
  "failed_trace = [AddFiles [(''a'', ''a.txt'')], ProcessLoop 1, Settle 2 ''a'' (Inl (Some network_error))]"

definition failed_state :: UploadQueueState where
  "failed_state = run demo_opts failed_trace initial_state"

text \<open>Five files: two completed, one failed, one uploading, one pending.\<close>

definition mixed_trace :: "Event list" where
  "mixed_trace =
     [AddFiles [(''a'', ''a.txt''), (''b'', ''b.txt''), (''c'', ''c.txt''), (''d'', ''d.txt'')],
      ProcessLoop 1, Settle 2 ''a'' (stored ''a'' ''k1''), Settle 3 ''b'' (stored ''b'' ''k2''),
      ProcessLoop 4, Settle 5 ''c'' (Inl (Some network_error)), AddFiles [(''e'', ''e.txt'')]]"

definition mixed_state :: UploadQueueState where
  "mixed_state = run demo_opts mixed_trace initial_state"

text \<open>
  The same queue somewhat later: \<open>clearCompleted\<close> has been called and waits for its
  deletions, and the upload of \<open>d\<close> has completed meanwhile.
\<close>

definition mixed_later_state :: UploadQueueState where
  "mixed_later_state =
     run demo_opts (mixed_trace @ [ClearCompleted, Settle 6 ''d'' (stored ''d'' ''k4'')])
       initial_state"





text \<open>The same, with the file retried while the deletion is under way.\<close>

definition retried_meanwhile_trace :: "Event list" where
  "retried_meanwhile_trace =
     completed_trace @ [RemoveFile ''a'', RetryFile ''a'', DeleteRejected ''a'']"

definition retried_meanwhile_state :: UploadQueueState where
  "retried_meanwhile_state = run demo_opts retried_meanwhile_trace initial_state"

text \<open>What the second piece of \<open>uploadFile\<close> does to the item on success and on failure.\<close>

definition mark_completed :: "nat \<Rightarrow> UploadResult \<Rightarrow> FileUploadItem \<Rightarrow> FileUploadItem" where
  "mark_completed now result f =
     f\<lparr>status := Completed, progress := 100, uploadEndTime := Some now, error := None,
       s3Key := res_s3Key result, fileUrl := res_fileUrl result\<rparr>"

definition mark_failed ::
  "UseUploadQueueOptions \<Rightarrow> nat \<Rightarrow> UploadError option \<Rightarrow> FileUploadItem \<Rightarrow> FileUploadItem" where
  "mark_failed opts now err f =
     f\<lparr>status := Failed, uploadEndTime := Some now,
       error := Some (case err of Some e \<Rightarrow> message e | None \<Rightarrow> ''Upload failed''),
       retryCount := maxRetries opts\<rparr>"

text \<open>The error that the abort listener rejects with.\<close>

definition user_cancelled :: UploadError where
  "user_cancelled = \<lparr>message = ''Upload cancelled by user'', retryable = False,
     code = ''USER_CANCELLED''\<rparr>"

text \<open>
  Transfers for the examples: one that fails with a network error on its first two
  attempts and then succeeds, and one that is cancelled at once.
\<close>

definition flaky :: "int \<Rightarrow> UploadError + UploadResult" where
  "flaky attempt =
     (if attempt < 2 then Inl network_error
      else Inr \<lparr>res_fileId = ''a'', res_s3Key = Some ''k1'', res_fileUrl = Some ''https://files/k1''\<rparr>)"

definition cancelled :: "int \<Rightarrow> UploadError + UploadResult" where
  "cancelled attempt = Inl user_cancelled"

text \<open>A queue of one pending file.\<close>

definition one_pending :: UploadQueueState where
  "one_pending = addFiles demo_opts [(''a'', ''a.txt'')] initial_state"

section \<open>Theorems\<close>

lemma count_by_status:
  "length fs =
     length (filter (\<lambda>f. status f = Pending) fs)
   + length (filter (\<lambda>f. status f = Uploading) fs)
   + length (filter (\<lambda>f. status f = Completed) fs)
   + length (filter (\<lambda>f. status f = Failed) fs)"
proof (induction fs)
  case Nil
  show ?case by simp
next
  case (Cons f fs)
  then show ?case by (cases "status f") simp_all
qed

text \<open>
  C10. In every queue state the derived statistics add up: \<open>total\<close> is the sum of the
  pending, uploading, completed and failed counts, an item having exactly one of the
  four statuses.
\<close>

theorem stats_total:
  "total (stats s) =
     pending (stats s) + stat_uploading (stats s) + completed (stats s) + failed (stats s)"
  unfolding stats_def using count_by_status [of "files s"] by simp

subsection \<open>The concurrency ceiling\<close>

lemma distinct_set_add: "distinct xs \<Longrightarrow> distinct (set_add x xs)"
  by (simp add: set_add_def)

lemma set_set_add: "set (set_add x xs) = insert x (set xs)"
  by (auto simp: set_add_def)

lemma length_set_add: "length (set_add x xs) \<le> Suc (length xs)"
  by (simp add: set_add_def)

lemma distinct_set_delete: "distinct xs \<Longrightarrow> distinct (set_delete x xs)"
  by (simp add: set_delete_def)

lemma set_set_delete: "set (set_delete x xs) = set xs - {x}"
  by (auto simp: set_delete_def)

lemma length_set_delete: "length (set_delete x xs) \<le> length xs"
  by (simp add: set_delete_def)

lemma find_item_id: "find (\<lambda>f. item_id f = i) fs = Some g \<Longrightarrow> item_id g = i"
  by (induction fs) (auto split: if_splits)

lemma ids_begin: "ids (uploadFile_begin now i s) = ids s"
  by (auto simp: uploadFile_begin_def ids_def comp_def split: option.splits intro!: map_cong)

lemma uploading_begin_len: "length (uploading (uploadFile_begin now i s)) \<le> Suc (length (uploading s))"
  by (auto simp: uploadFile_begin_def length_set_add split: option.splits)

lemma uploading_begin_distinct: "distinct (uploading s) \<Longrightarrow> distinct (uploading (uploadFile_begin now i s))"
  by (auto simp: uploadFile_begin_def distinct_set_add split: option.splits)

lemma begin_covered:
  assumes "\<forall>f \<in> set (files s). status f = Uploading \<longrightarrow> item_id f \<in> set (uploading s)"
  shows "\<forall>f \<in> set (files (uploadFile_begin now i s)). status f = Uploading \<longrightarrow> item_id f \<in> set (uploading (uploadFile_begin now i s))"
  using assms
  by (auto simp: uploadFile_begin_def set_set_add split: option.splits dest: find_item_id)

lemma fold_begin:
  "distinct (uploading s) \<Longrightarrow> covered s \<Longrightarrow>
   ids (fold (\<lambda>f. uploadFile_begin now (item_id f)) fs s) = ids s
   \<and> distinct (uploading (fold (\<lambda>f. uploadFile_begin now (item_id f)) fs s))
   \<and> covered (fold (\<lambda>f. uploadFile_begin now (item_id f)) fs s)
   \<and> length (uploading (fold (\<lambda>f. uploadFile_begin now (item_id f)) fs s)) \<le> length (uploading s) + length fs"
proof (induction fs arbitrary: s)
  case Nil
  then show ?case by simp
next
  case (Cons f fs)
  let ?s1 = "uploadFile_begin now (item_id f) s"
  have d: "distinct (uploading ?s1)" using Cons.prems(1) by (rule uploading_begin_distinct)
  have c: "covered ?s1" using Cons.prems(2) begin_covered unfolding covered_def by blast
  from Cons.IH [OF d c] uploading_begin_len [of now "item_id f" s] ids_begin [of now "item_id f" s]
  show ?case by auto
qed


lemma ids_fold_begin: "ids (fold (\<lambda>f. uploadFile_begin now (item_id f)) fs s) = ids s"
  by (induction fs arbitrary: s) (simp_all add: ids_begin)

lemma count_le_uploading:
  assumes "distinct (ids s)" "covered s" 
  shows "count_uploading s \<le> length (uploading s)"
proof -
  let ?us = "filter (\<lambda>f. status f = Uploading) (files s)"
  have d: "distinct (map item_id ?us)"
    using assms(1) unfolding ids_def by (rule distinct_map_filter)
  have sub: "set (map item_id ?us) \<subseteq> set (uploading s)"
    using assms(2) unfolding covered_def by auto
  have "count_uploading s = length (map item_id ?us)" by (simp add: count_uploading_def)
  also have "\<dots> = card (set (map item_id ?us))" using distinct_card [OF d] by simp
  also have "\<dots> \<le> card (set (uploading s))" using sub by (simp add: card_mono)
  also have "\<dots> \<le> length (uploading s)" by (rule card_length)
  finally show ?thesis .
qed

lemma length_filesToUpload:
  "int (length (filesToUpload opts s)) \<le> max 0 (availableSlots opts s)"
  by (auto simp: filesToUpload_def)

lemma processLoop_fields:
  "files (processLoop opts now s) = files (fold (\<lambda>f. uploadFile_begin now (item_id f)) (filesToUpload opts s) s)"
  "uploading (processLoop opts now s) = uploading (fold (\<lambda>f. uploadFile_begin now (item_id f)) (filesToUpload opts s) s)"
  by (simp_all add: processLoop_def Let_def)

lemma cap_inv_processLoop:
  assumes "cap_inv opts s"
  shows "cap_inv opts (processLoop opts now s)"
proof -
  let ?t = "fold (\<lambda>f. uploadFile_begin now (item_id f)) (filesToUpload opts s) s"
  from assms have d: "distinct (uploading s)" and c: "covered s"
    and di: "distinct (ids s)" and le: "int (length (uploading s)) \<le> maxConcurrent opts"
    by (simp_all add: cap_inv_def covered_def)
  note fb = fold_begin [OF d c, of now "filesToUpload opts s"]
  have "int (length (uploading ?t)) \<le> int (length (uploading s)) + int (length (filesToUpload opts s))"
    using fb by linarith
  also have "\<dots> \<le> maxConcurrent opts"
    using length_filesToUpload [of opts s] le by (simp add: availableSlots_def)
  finally have len: "int (length (uploading ?t)) \<le> maxConcurrent opts" .
  show ?thesis
    using fb di len
    by (simp add: cap_inv_def covered_def ids_def processLoop_fields)
qed

lemma ids_step: "set (ids (step opts e s)) \<subseteq> set (ids s) \<union> set (generated e)"
proof (cases e)
  case (AddFiles n)
  then show ?thesis by (auto simp: ids_def addFiles_def new_item_def)
next
  case (RetryFile i)
  then show ?thesis by (auto simp: ids_def retryFile_def)
next
  case (RemoveFile i)
  have "fst (removeFile_begin i s) = s \<or> fst (removeFile_begin i s) = removeFile_remove i s"
    by (simp add: removeFile_begin_def split: option.splits)
  with RemoveFile show ?thesis by (auto simp: ids_def removeFile_remove_def)
next
  case (DeleteResolved i)
  then show ?thesis by (auto simp: ids_def removeFile_remove_def)
next
  case (DeleteRejected i)
  then show ?thesis by (auto simp: ids_def removeFile_rejected_def)
next
  case ClearCompleted
  then show ?thesis by (auto simp: ids_def clearCompleted_finish_def Let_def)
next
  case (ClearFinished bad)
  then show ?thesis by (auto simp: ids_def clearCompleted_finish_def Let_def)
next
  case (ProcessLoop now)
  have "ids (processLoop opts now s) = ids s"
    by (simp add: ids_def processLoop_fields) (metis ids_def ids_fold_begin)
  with ProcessLoop show ?thesis by simp
next
  case (Progress i p)
  then show ?thesis by (auto simp: ids_def onProgress_def)
next
  case (Settle now i outcome)
  then show ?thesis by (auto simp: ids_def uploadFile_settle_def split: sum.splits)
qed (simp_all add: ids_def startProcessing_def stopProcessing_def)


lemma map_item_id_if:
  "(\<And>f. item_id (g f) = item_id f)
   \<Longrightarrow> item_id \<circ> (\<lambda>f. if c f then g f else f) = item_id"
  by (rule ext) simp

lemma cap_invI:
  "distinct (ids s) \<Longrightarrow> distinct (uploading s) \<Longrightarrow> int (length (uploading s)) \<le> maxConcurrent opts
   \<Longrightarrow> covered s \<Longrightarrow> cap_inv opts s"
  by (simp add: cap_inv_def covered_def)

lemma cap_invD:
  assumes "cap_inv opts s"
  shows "distinct (ids s)" "distinct (uploading s)"
    "int (length (uploading s)) \<le> maxConcurrent opts" "covered s"
  using assms by (simp_all add: cap_inv_def covered_def)

lemma cap_inv_addFiles:
  assumes inv: "cap_inv opts s"
    and dg: "distinct (map fst n)" and fresh: "set (map fst n) \<inter> set (ids s) = {}"
  shows "cap_inv opts (addFiles opts n s)"
proof (rule cap_invI)
  have c: "item_id \<circ> new_item = fst" by (rule ext) (simp add: new_item_def)
  have "ids (addFiles opts n s) = ids s @ map fst n"
    by (simp add: ids_def addFiles_def c)
  then show "distinct (ids (addFiles opts n s))"
    using cap_invD(1) [OF inv] dg fresh by auto
  show "distinct (uploading (addFiles opts n s))"
    using cap_invD(2) [OF inv] by (simp add: addFiles_def)
  show "int (length (uploading (addFiles opts n s))) \<le> maxConcurrent opts"
    using cap_invD(3) [OF inv] by (simp add: addFiles_def)
  show "covered (addFiles opts n s)"
    using cap_invD(4) [OF inv] by (auto simp: covered_def addFiles_def new_item_def)
qed

lemma cap_inv_retryFile:
  assumes inv: "cap_inv opts s"
  shows "cap_inv opts (retryFile i s)"
proof (rule cap_invI)
  have "ids (retryFile i s) = ids s"
    by (simp add: ids_def retryFile_def map_item_id_if)
  then show "distinct (ids (retryFile i s))" using cap_invD(1) [OF inv] by simp
  show "distinct (uploading (retryFile i s))"
    using cap_invD(2) [OF inv] by (simp add: retryFile_def)
  show "int (length (uploading (retryFile i s))) \<le> maxConcurrent opts"
    using cap_invD(3) [OF inv] by (simp add: retryFile_def)
  show "covered (retryFile i s)"
    using cap_invD(4) [OF inv] by (auto simp: covered_def retryFile_def)
qed

lemma removeFile_begin_cases:
  "fst (removeFile_begin i s) = s \<or> fst (removeFile_begin i s) = removeFile_remove i s"
  by (simp add: removeFile_begin_def split: option.splits)

lemma removeFile_cases:
  "removeFile d i s = removeFile_remove i s \<or> removeFile d i s = removeFile_rejected i s"
  by (simp add: removeFile_def removeFile_begin_def split: option.splits)

lemma cap_inv_removeFile_remove:
  assumes inv: "cap_inv opts s"
  shows "cap_inv opts (removeFile_remove i s)"
proof (rule cap_invI)
  show "distinct (ids (removeFile_remove i s))"
    using cap_invD(1) [OF inv] by (simp add: removeFile_remove_def ids_def distinct_map_filter)
  show "distinct (uploading (removeFile_remove i s))"
    using cap_invD(2) [OF inv] by (simp add: removeFile_remove_def distinct_set_delete)
  show "int (length (uploading (removeFile_remove i s))) \<le> maxConcurrent opts"
    using cap_invD(3) [OF inv] length_set_delete [of i "uploading s"]
    by (simp add: removeFile_remove_def)
  show "covered (removeFile_remove i s)"
    using cap_invD(4) [OF inv] by (auto simp: removeFile_remove_def covered_def set_set_delete)
qed

lemma cap_inv_removeFile_rejected:
  assumes inv: "cap_inv opts s"
  shows "cap_inv opts (removeFile_rejected i s)"
proof (rule cap_invI)
  show "distinct (ids (removeFile_rejected i s))"
    using cap_invD(1) [OF inv] by (simp add: removeFile_rejected_def ids_def map_item_id_if)
  show "distinct (uploading (removeFile_rejected i s))"
    using cap_invD(2) [OF inv] by (simp add: removeFile_rejected_def)
  show "int (length (uploading (removeFile_rejected i s))) \<le> maxConcurrent opts"
    using cap_invD(3) [OF inv] by (simp add: removeFile_rejected_def)
  show "covered (removeFile_rejected i s)"
    using cap_invD(4) [OF inv] by (auto simp: removeFile_rejected_def covered_def)
qed

lemma cap_inv_removeFile_begin:
  assumes inv: "cap_inv opts s"
  shows "cap_inv opts (fst (removeFile_begin i s))"
  using removeFile_begin_cases [of i s] inv cap_inv_removeFile_remove [OF inv, of i] by auto

lemma cap_inv_clearCompleted_finish:
  assumes inv: "cap_inv opts s"
  shows "cap_inv opts (clearCompleted_finish bad s)"
proof (rule cap_invI)
  have "ids (clearCompleted_finish bad s) = map item_id (filter (\<lambda>f. (status f = Completed \<and> item_id f \<in> set bad)
                                 \<or> (status f \<noteq> Completed \<and> status f \<noteq> Failed))
      (if length bad > 0
       then map (\<lambda>f. if item_id f \<in> set bad
                      then f\<lparr>error := Some delete_error\<rparr> else f) (files s)
       else files s))"
    by (simp add: ids_def clearCompleted_finish_def Let_def)
  moreover have "distinct (map item_id (if length bad > 0
       then map (\<lambda>f. if item_id f \<in> set bad
                      then f\<lparr>error := Some delete_error\<rparr> else f) (files s)
       else files s))"
    using cap_invD(1) [OF inv] by (simp add: ids_def map_item_id_if)
  ultimately show "distinct (ids (clearCompleted_finish bad s))"
    by (simp only: distinct_map_filter)
  show "distinct (uploading (clearCompleted_finish bad s))"
    using cap_invD(2) [OF inv] by (simp add: clearCompleted_finish_def Let_def)
  show "int (length (uploading (clearCompleted_finish bad s))) \<le> maxConcurrent opts"
    using cap_invD(3) [OF inv] by (simp add: clearCompleted_finish_def Let_def)
  show "covered (clearCompleted_finish bad s)"
    using cap_invD(4) [OF inv]
    by (auto simp: covered_def clearCompleted_finish_def Let_def split: if_splits)
qed

lemma cap_inv_onProgress:
  assumes inv: "cap_inv opts s"
  shows "cap_inv opts (onProgress i p s)"
proof (rule cap_invI)
  show "distinct (ids (onProgress i p s))"
    using cap_invD(1) [OF inv] by (simp add: ids_def onProgress_def map_item_id_if)
  show "distinct (uploading (onProgress i p s))"
    using cap_invD(2) [OF inv] by (simp add: onProgress_def)
  show "int (length (uploading (onProgress i p s))) \<le> maxConcurrent opts"
    using cap_invD(3) [OF inv] by (simp add: onProgress_def)
  show "covered (onProgress i p s)"
    using cap_invD(4) [OF inv] by (auto simp: covered_def onProgress_def)
qed

lemma cap_inv_settle:
  assumes inv: "cap_inv opts s"
  shows "cap_inv opts (uploadFile_settle opts now i outcome s)"
proof (rule cap_invI)
  let ?t = "uploadFile_settle opts now i outcome s"
  have u: "uploading ?t = set_delete i (uploading s)"
    by (cases outcome) (simp_all add: uploadFile_settle_def)
  show "distinct (ids ?t)"
    using cap_invD(1) [OF inv]
    by (cases outcome) (simp_all add: ids_def uploadFile_settle_def map_item_id_if)
  show "distinct (uploading ?t)"
    using cap_invD(2) [OF inv] by (simp add: u distinct_set_delete)
  show "int (length (uploading ?t)) \<le> maxConcurrent opts"
    using cap_invD(3) [OF inv] length_set_delete [of i "uploading s"] by (simp add: u)
  show "covered ?t"
    using cap_invD(4) [OF inv]
    by (cases outcome) (auto simp: covered_def uploadFile_settle_def set_set_delete)
qed

lemma cap_inv_step:
  assumes inv: "cap_inv opts s" and ns: "\<not> is_stop e"
    and dg: "distinct (generated e)" and fresh: "set (generated e) \<inter> set (ids s) = {}"
  shows "cap_inv opts (step opts e s)"
proof (cases e)
  case (AddFiles n)
  then show ?thesis using cap_inv_addFiles [OF inv, of n] dg fresh by simp
next
  case (RetryFile i)
  then show ?thesis using cap_inv_retryFile [OF inv] by simp
next
  case (RemoveFile i)
  then show ?thesis using cap_inv_removeFile_begin [OF inv] by simp
next
  case (DeleteResolved i)
  then show ?thesis using cap_inv_removeFile_remove [OF inv] by simp
next
  case (DeleteRejected i)
  then show ?thesis using cap_inv_removeFile_rejected [OF inv] by simp
next
  case ClearCompleted
  then show ?thesis using cap_inv_clearCompleted_finish [OF inv] inv by simp
next
  case (ClearFinished bad)
  then show ?thesis using cap_inv_clearCompleted_finish [OF inv] by simp
next
  case StartProcessing
  then show ?thesis using inv by (simp add: cap_inv_def covered_def ids_def startProcessing_def)
next
  case StopProcessing
  then show ?thesis using ns by simp
next
  case (ProcessLoop now)
  then show ?thesis using inv cap_inv_processLoop by simp
next
  case (Progress i p)
  then show ?thesis using cap_inv_onProgress [OF inv] by simp
next
  case (Settle now i outcome)
  then show ?thesis using cap_inv_settle [OF inv] by simp
qed

lemma run_Cons: "run opts (e # evs) s = run opts evs (step opts e s)"
  by (simp add: run_def)

lemma cap_inv_run:
  "cap_inv opts s \<Longrightarrow> distinct (concat (map generated evs))
   \<Longrightarrow> set (ids s) \<inter> set (concat (map generated evs)) = {}
   \<Longrightarrow> list_all (\<lambda>e. \<not> is_stop e) evs
   \<Longrightarrow> cap_inv opts (run opts evs s)"
proof (induction evs arbitrary: s)
  case Nil
  then show ?case by (simp add: run_def)
next
  case (Cons e evs)
  have 1: "cap_inv opts (step opts e s)"
    using Cons.prems by (intro cap_inv_step) auto
  have 2: "set (ids (step opts e s)) \<inter> set (concat (map generated evs)) = {}"
    using ids_step [of opts e s] Cons.prems(2,3) by auto
  show ?case unfolding run_Cons
    using Cons.prems by (intro Cons.IH 1 2) auto
qed

lemma cap_inv_initial: "0 \<le> maxConcurrent opts \<Longrightarrow> cap_inv opts initial_state"
  by (simp add: cap_inv_def covered_def initial_state_def ids_def)

text \<open>
  C1. Start from the empty queue with a ceiling that is not negative, and let any
  sequence of events happen in which \<open>generateId\<close> never repeats an id and the queue is
  not stopped: files are added, the scheduling loop evaluates, transfers report
  progress and settle, items are retried, removed or cleared. In the state reached,
  the number of items whose status is \<open>Uploading\<close> is at most \<open>maxConcurrent\<close>, and
  the next scheduling evaluation admits at most \<open>maxConcurrent\<close> minus that number
  of pending items.
\<close>

theorem concurrency_ceiling:
  assumes "0 \<le> maxConcurrent opts" and "ids_unique evs" and "list_all (\<lambda>e. \<not> is_stop e) evs"
  shows "int (count_uploading (run opts evs initial_state)) \<le> maxConcurrent opts
    \<and> int (length (filesToUpload opts (run opts evs initial_state)))
        \<le> maxConcurrent opts - int (count_uploading (run opts evs initial_state))"
proof -
  let ?s = "run opts evs initial_state"
  have "cap_inv opts ?s"
    using assms by (intro cap_inv_run cap_inv_initial) (simp_all add: ids_unique_def ids_def initial_state_def)
  then have c: "count_uploading ?s \<le> length (uploading ?s)"
    and le: "int (length (uploading ?s)) \<le> maxConcurrent opts"
    using count_le_uploading [of ?s] by (simp_all add: cap_inv_def covered_def)
  from c le length_filesToUpload [of opts ?s] show ?thesis
    by (simp add: availableSlots_def)
qed

theorem concurrency_ceiling_witness:
  "0 \<le> maxConcurrent demo_opts \<and> ids_unique ceiling_trace
   \<and> list_all (\<lambda>e. \<not> is_stop e) ceiling_trace
   \<and> int (count_uploading (run demo_opts ceiling_trace initial_state)) \<le> maxConcurrent demo_opts
   \<and> int (length (filesToUpload demo_opts (run demo_opts ceiling_trace initial_state)))
        \<le> maxConcurrent demo_opts - int (count_uploading (run demo_opts ceiling_trace initial_state))"
proof -
  have h1: "0 \<le> maxConcurrent demo_opts" by (simp add: demo_opts_def)
  have h2: "ids_unique ceiling_trace" by (simp add: ids_unique_def ceiling_trace_def)
  have h3: "list_all (\<lambda>e. \<not> is_stop e) ceiling_trace" by (simp add: ceiling_trace_def)
  from concurrency_ceiling [OF h1 h2 h3] h1 h2 h3 show ?thesis by simp
qed

subsection \<open>Admission order\<close>

lemma find_None_ids: "find (\<lambda>f. item_id f = i) fs = None \<Longrightarrow> \<forall>f \<in> set fs. item_id f \<noteq> i"
  by (induction fs) (auto split: if_splits)

lemma files_begin:
  "files (uploadFile_begin now i s)
     = map (\<lambda>g. if item_id g = i then mark_uploading now g else g) (files s)"
proof (cases "find (\<lambda>f. item_id f = i) (files s)")
  case None
  from find_None_ids [OF None] have "map (\<lambda>g. if item_id g = i then mark_uploading now g else g) (files s) = files s"
    by (simp add: map_idI)
  with None show ?thesis by (simp add: uploadFile_begin_def)
next
  case (Some f)
  with find_item_id [OF Some] show ?thesis
    by (simp add: uploadFile_begin_def mark_uploading_def)
qed

lemma files_fold_begin:
  "files (fold (\<lambda>f. uploadFile_begin now (item_id f)) fs s)
     = map (\<lambda>g. if item_id g \<in> item_id ` set fs then mark_uploading now g else g) (files s)"
proof (induction fs arbitrary: s)
  case Nil
  show ?case by simp
next
  case (Cons f fs)
  show ?case
    by (simp add: Cons.IH files_begin comp_def mark_uploading_def) 
qed

lemma take_filter_prefix: "\<exists>m. take k (filter P xs) = filter P (take m xs)"
proof (induction xs arbitrary: k)
  case Nil
  show ?case by simp
next
  case (Cons x xs)
  show ?case
  proof (cases k)
    case 0
    have "take k (filter P (x # xs)) = filter P (take 0 (x # xs))" using 0 by simp
    then show ?thesis by blast
  next
    case (Suc k')
    show ?thesis
    proof (cases "P x")
      case True
      from Cons.IH [of k'] obtain m where "take k' (filter P xs) = filter P (take m xs)" ..
      then have "take k (filter P (x # xs)) = filter P (take (Suc m) (x # xs))"
        using True Suc by simp
      then show ?thesis by blast
    next
      case False
      from Cons.IH [of k] obtain m where "take k (filter P xs) = filter P (take m xs)" ..
      then have "take k (filter P (x # xs)) = filter P (take (Suc m) (x # xs))"
        using False by simp
      then show ?thesis by blast
    qed
  qed
qed

lemma distinct_in_take:
  assumes "distinct xs" "j < length xs" "xs ! j \<in> set (take m xs)"
  shows "j < m"
proof -
  from assms(3) obtain j' where j': "j' < length (take m xs)" "take m xs ! j' = xs ! j"
    by (auto simp: in_set_conv_nth)
  then have "j' < m" "j' < length xs" "xs ! j' = xs ! j" by simp_all
  with assms(1,2) have "j' = j" by (simp add: nth_eq_iff_index_eq)
  with \<open>j' < m\<close> show ?thesis by simp
qed

lemma fifo_prefix:
  assumes d: "distinct xs" and ij: "i < j" "j < length xs"
    and pi: "P (xs ! i)" and mem: "xs ! j \<in> set (take k (filter P xs))"
  shows "xs ! i \<in> set (take k (filter P xs))"
proof -
  obtain m where m: "take k (filter P xs) = filter P (take m xs)"
    using take_filter_prefix by blast
  from mem have "xs ! j \<in> set (take m xs)" by (simp add: m)
  from distinct_in_take [OF d ij(2) this] have "j < m" .
  with ij have "i < m" "i < length xs" by simp_all
  then have "xs ! i \<in> set (take m xs)"
    by (metis in_set_conv_nth length_take min_less_iff_conj nth_take)
  with pi show ?thesis by (simp add: m)
qed

text \<open>
  C8. \<open>addFiles\<close> appends the new items to the queue in the order submitted, and a
  scheduling evaluation admits pending items in queue order: when the ids are
  unique and two items are pending, the one that stands later in the queue becomes
  \<open>Uploading\<close> in an evaluation only if the earlier one does too.
\<close>

theorem fifo_admission:
  "files (addFiles opts newFiles s) = files s @ map new_item newFiles
   \<and> (distinct (ids s) \<longrightarrow> i < j \<longrightarrow> j < length (files s)
        \<longrightarrow> status (files s ! i) = Pending \<longrightarrow> status (files s ! j) = Pending
        \<longrightarrow> status (files (processLoop opts now s) ! j) = Uploading
        \<longrightarrow> status (files (processLoop opts now s) ! i) = Uploading)"
proof (intro conjI impI)
  show "files (addFiles opts newFiles s) = files s @ map new_item newFiles"
    by (simp add: addFiles_def)
next
  assume d: "distinct (ids s)" and ij: "i < j" "j < length (files s)"
    and pi: "status (files s ! i) = Pending" and pj: "status (files s ! j) = Pending"
    and uj: "status (files (processLoop opts now s) ! j) = Uploading"
  let ?up = "filesToUpload opts s"
  have fs: "files (processLoop opts now s)
      = map (\<lambda>g. if item_id g \<in> item_id ` set ?up then mark_uploading now g else g) (files s)"
    by (simp add: processLoop_fields files_fold_begin)
  have dx: "distinct (files s)" using d by (simp add: ids_def distinct_map)
  have inj: "inj_on item_id (set (files s))" using d by (simp add: ids_def distinct_map)
  have sub: "set ?up \<subseteq> set (files s)"
    by (auto simp: filesToUpload_def pendingFiles_def dest: in_set_takeD)
  from uj pj ij have "item_id (files s ! j) \<in> item_id ` set ?up"
    by (simp add: fs split: if_splits)
  then obtain g where g: "g \<in> set ?up" "item_id g = item_id (files s ! j)" by auto
  with inj sub ij have "g = files s ! j" by (auto dest: inj_onD)
  with g have memj: "files s ! j \<in> set ?up" by simp
  then have ne: "?up = take (nat (availableSlots opts s)) (filter (\<lambda>f. status f = Pending) (files s))"
    by (auto simp: filesToUpload_def pendingFiles_def split: if_splits)
  from fifo_prefix [OF dx ij, of "\<lambda>f. status f = Pending" "nat (availableSlots opts s)"] pi memj
  have "files s ! i \<in> set ?up" by (simp add: ne)
  then show "status (files (processLoop opts now s) ! i) = Uploading"
    using ij by (simp add: fs mark_uploading_def)
qed


text \<open>The definitions that a concrete run unfolds.\<close>

lemmas hook_defs =
  addFiles_def new_item_def initial_state_def retryFile_def removeFile_def removeFile_begin_def
  removeFile_remove_def removeFile_rejected_def clearCompleted_def clearCompleted_finish_def
  failedDeleteIds_def completedFiles_def truthy_str_def delete_error_def set_add_def
  set_delete_def uploadFile_begin_def uploadFile_settle_def onProgress_def processLoop_def
  filesToUpload_def pendingFiles_def availableSlots_def startProcessing_def stopProcessing_def
  run_def ids_def count_uploading_def demo_opts_def

theorem fifo_admission_witness:
  "files (addFiles demo_opts [(''d'', ''d.txt'')] three_pending)
     = files three_pending @ map new_item [(''d'', ''d.txt'')]
   \<and> distinct (ids three_pending) \<and> (0::nat) < 1 \<and> 1 < length (files three_pending)
   \<and> status (files three_pending ! 0) = Pending \<and> status (files three_pending ! 1) = Pending
   \<and> status (files (processLoop demo_opts 7 three_pending) ! 1) = Uploading
   \<and> status (files (processLoop demo_opts 7 three_pending) ! 0) = Uploading
   \<and> status (files (processLoop demo_opts 7 three_pending) ! 2) = Pending"
proof -
  have h1: "distinct (ids three_pending)" by (simp add: three_pending_def hook_defs)
  have h2: "(0::nat) < 1" by simp
  have h3: "1 < length (files three_pending)" by (simp add: three_pending_def hook_defs)
  have h4: "status (files three_pending ! 0) = Pending" by (simp add: three_pending_def hook_defs)
  have h5: "status (files three_pending ! 1) = Pending" by (simp add: three_pending_def hook_defs)
  have h6: "status (files (processLoop demo_opts 7 three_pending) ! 1) = Uploading"
    by (simp add: three_pending_def hook_defs)
  have h7: "status (files (processLoop demo_opts 7 three_pending) ! 2) = Pending"
    by (simp add: three_pending_def hook_defs)
  from fifo_admission [of demo_opts "[(''d'', ''d.txt'')]" three_pending 0 1 7] h1 h2 h3 h4 h5 h6 h7
  show ?thesis by blast
qed

text \<open>
  The bound is one on traces that do not stop the queue. \<open>stopProcessing\<close> empties
  the set of uploading ids and leaves the statuses as they are (the aborted requests
  never settle), so after a restart the loop counts no upload in flight and admits
  again.
\<close>

lemma stop_then_restart:
  "ids_unique restart_trace \<and> maxConcurrent demo_opts = 2
   \<and> count_uploading (run demo_opts restart_trace initial_state) = 4"
  by (simp add: restart_trace_def ids_unique_def hook_defs)

subsection \<open>Removing, retrying and clearing\<close>

lemma find_Some_set: "find P xs = Some x \<Longrightarrow> x \<in> set xs \<and> P x"
  by (induction xs) (auto split: if_splits)

lemma mark_one_simps:
  "item_id (mark_one i g) = item_id g"
  "item_id g = i \<Longrightarrow> mark_one i g = g\<lparr>error := Some delete_error\<rparr>"
  "item_id g = i \<Longrightarrow> error (mark_one i g) = Some delete_error"
  by (simp_all add: mark_one_def)

lemma removeFile_marks:
  assumes "find (\<lambda>f. item_id f = fileId) (files s) = Some f"
    and "status f = Completed" and "s3Key f = Some k" and "k \<noteq> []" and "\<not> deleteFile k"
  shows "removeFile deleteFile fileId s = s\<lparr>files := map (mark_one fileId) (files s)\<rparr>"
  using assms
  by (simp add: removeFile_def removeFile_begin_def removeFile_rejected_def truthy_str_def
      mark_one_def [abs_def])

lemma a1:
  assumes r: "files t = map (mark_one fileId) (files s)"
   and mem: "f \<in> set (files s)" and fid: "item_id f = fileId"
  shows "f\<lparr>error := Some delete_error\<rparr> \<in> set (files t)"
proof -
  have "mark_one fileId f \<in> mark_one fileId ` set (files s)" using mem by (rule imageI)
  then show ?thesis by (simp only: r set_map mark_one_simps(2) [OF fid])
qed

lemma a2:
  assumes r: "files t = map (mark_one fileId) (files s)"
  shows "ids t = ids s"
  by (simp add: ids_def r comp_def mark_one_simps(1))

lemma a3:
  assumes r: "files t = map (mark_one fileId) (files s)"
  shows "\<forall>g \<in> set (files t). item_id g = fileId \<longrightarrow> error g = Some delete_error"
proof (intro ballI impI)
  fix g
  assume "g \<in> set (files t)" and gid: "item_id g = fileId"
  then obtain x where x: "g = mark_one fileId x" by (auto simp: r)
  with gid have "item_id x = fileId" by (simp add: mark_one_simps(1))
  then show "error g = Some delete_error" by (simp only: x mark_one_simps(3))
qed

text \<open>
  C7. \<open>removeFile\<close> on a completed item that has a remote key, when the remote
  deletion fails: the item stays in the queue with the delete failure recorded as its
  error, no item leaves the queue, every item of that id carries the error, and the set
  of uploading ids is not touched.
\<close>

theorem removeFile_delete_failure:
  assumes "find (\<lambda>f. item_id f = fileId) (files s) = Some f"
    and "status f = Completed" and "s3Key f = Some k" and "k \<noteq> []" and "\<not> deleteFile k"
  shows "f\<lparr>error := Some delete_error\<rparr> \<in> set (files (removeFile deleteFile fileId s))
    \<and> ids (removeFile deleteFile fileId s) = ids s
    \<and> (\<forall>g \<in> set (files (removeFile deleteFile fileId s)).
          item_id g = fileId \<longrightarrow> error g = Some delete_error)
    \<and> uploading (removeFile deleteFile fileId s) = uploading s"
proof -
  have r: "removeFile deleteFile fileId s = s\<lparr>files := map (mark_one fileId) (files s)\<rparr>"
    using assms by (rule removeFile_marks)
  then have fs: "files (removeFile deleteFile fileId s) = map (mark_one fileId) (files s)"
    by simp
  from find_Some_set [OF assms(1)] have mem: "f \<in> set (files s)" and fid: "item_id f = fileId"
    by simp_all
  have 4: "uploading (removeFile deleteFile fileId s) = uploading s"
    by (simp add: r)
  show ?thesis
    by (intro conjI a1 [OF fs mem fid] a2 [OF fs] a3 [OF fs] 4)
qed

text \<open>
  C6, as the code has it. \<open>retryFile\<close> carries no check of the status: every item of
  the given id gets status \<open>Pending\<close>, progress 0 and no error, whatever its status
  was, and keeps its other fields; the items of other ids, their number and order, and
  the set of uploading ids are unchanged.
\<close>

theorem retryFile_effect:
  "length (files (retryFile fileId s)) = length (files s)
   \<and> uploading (retryFile fileId s) = uploading s
   \<and> (\<forall>i < length (files s).
        files (retryFile fileId s) ! i =
          (if item_id (files s ! i) = fileId
           then (files s ! i)\<lparr>status := Pending, progress := 0, error := None\<rparr>
           else files s ! i))"
  by (simp add: retryFile_def)
















lemmas demo_defs =
  network_error_def always_fails_def always_succeeds_def delete_only_k2_def stored_def
  completed_trace_def completed_state_def failed_trace_def failed_state_def
  mixed_trace_def mixed_state_def mixed_later_state_def

lemma mixed_state_status:
  "map (\<lambda>f. (item_id f, status f, s3Key f)) (files mixed_state) =
     [(''a'', Completed, Some ''k1''), (''b'', Completed, Some ''k2''), (''c'', Failed, None),
      (''d'', Uploading, None), (''e'', Pending, None)]"
  by (simp add: demo_defs hook_defs)

theorem removeFile_delete_failure_witness:
  "find (\<lambda>f. item_id f = ''a'') (files completed_state) = Some (files completed_state ! 0)
   \<and> status (files completed_state ! 0) = Completed
   \<and> s3Key (files completed_state ! 0) = Some ''k1'' \<and> ''k1'' \<noteq> [] \<and> \<not> always_fails ''k1''
   \<and> (files completed_state ! 0)\<lparr>error := Some delete_error\<rparr>
        \<in> set (files (removeFile always_fails ''a'' completed_state))
   \<and> ids (removeFile always_fails ''a'' completed_state) = ids completed_state
   \<and> uploading (removeFile always_fails ''a'' completed_state) = uploading completed_state"
proof -
  have h1: "find (\<lambda>f. item_id f = ''a'') (files completed_state) = Some (files completed_state ! 0)"
    by (simp add: demo_defs hook_defs)
  have h2: "status (files completed_state ! 0) = Completed" by (simp add: demo_defs hook_defs)
  have h3: "s3Key (files completed_state ! 0) = Some ''k1''" by (simp add: demo_defs hook_defs)
  have h4: "''k1'' \<noteq> []" by simp
  have h5: "\<not> always_fails ''k1''" by (simp add: always_fails_def)
  from removeFile_delete_failure
    [where fileId = "''a''" and s = completed_state and f = "files completed_state ! 0"
       and k = "''k1''" and deleteFile = always_fails, OF h1 h2 h3 h4 h5]
    h1 h2 h3 h4 h5
  show ?thesis by blast
qed

theorem retryFile_effect_witness:
  "length (files (retryFile ''a'' failed_state)) = length (files failed_state)
   \<and> uploading (retryFile ''a'' failed_state) = uploading failed_state
   \<and> 0 < length (files failed_state)
   \<and> item_id (files failed_state ! 0) = ''a''
   \<and> status (files failed_state ! 0) = Failed
   \<and> files (retryFile ''a'' failed_state) ! 0
        = (files failed_state ! 0)\<lparr>status := Pending, progress := 0, error := None\<rparr>"
proof -
  have h1: "0 < length (files failed_state)" by (simp add: demo_defs hook_defs)
  have h2: "item_id (files failed_state ! 0) = ''a''" by (simp add: demo_defs hook_defs)
  have h3: "status (files failed_state ! 0) = Failed" by (simp add: demo_defs hook_defs)
  from retryFile_effect [of "''a''" failed_state] h1 h2 h3 show ?thesis by simp
qed

text \<open>
  C6 as stated fails: \<open>retryFile\<close> on a completed item is not a no-op, it makes the
  item pending again.
\<close>

theorem retryFile_resets_completed:
  "status (files completed_state ! 0) = Completed
   \<and> item_id (files completed_state ! 0) = ''a''
   \<and> status (files (retryFile ''a'' completed_state) ! 0) = Pending
   \<and> progress (files (retryFile ''a'' completed_state) ! 0) = 0
   \<and> files (retryFile ''a'' completed_state) \<noteq> files completed_state"
  by (simp add: demo_defs hook_defs)


lemma mixed_later_state_status:
  "map (\<lambda>f. (item_id f, status f, s3Key f)) (files mixed_later_state) =
     [(''a'', Completed, Some ''k1''), (''b'', Completed, Some ''k2''), (''c'', Failed, None),
      (''d'', Completed, Some ''k4''), (''e'', Pending, None)]"
  by (simp add: demo_defs hook_defs)


subsection \<open>The error field\<close>

























text \<open>
  When the file is retried while its deletion is under way, the failure of the deletion
  leaves a pending item that carries the error.
\<close>

lemma pending_item_with_error:
  "ids_unique retried_meanwhile_trace
   \<and> status (files retried_meanwhile_state ! 0) = Pending
   \<and> error (files retried_meanwhile_state ! 0) = Some ''Failed to delete from storage''"
  by (simp add: retried_meanwhile_state_def retried_meanwhile_trace_def ids_unique_def
      demo_defs hook_defs)


subsection \<open>Retries and the final state of an item\<close>

lemma files_settle_ok:
  "files (uploadFile_settle opts now i (Inr result) s)
     = map (\<lambda>f. if item_id f = i then mark_completed now result f else f) (files s)"
  by (simp add: uploadFile_settle_def mark_completed_def)

lemma files_settle_err:
  "files (uploadFile_settle opts now i (Inl err) s)
     = map (\<lambda>f. if item_id f = i then mark_failed opts now err f else f) (files s)"
  by (simp add: uploadFile_settle_def mark_failed_def)

lemma find_Some_if_nth:
  assumes "i < length xs" "P (xs ! i)"
  shows "\<exists>x. find P xs = Some x \<and> P x"
proof (cases "find P xs")
  case None
  then have "\<not> (\<exists>x. x \<in> set xs \<and> P x)" by (simp add: find_None_iff)
  with assms show ?thesis using nth_mem by blast
next
  case (Some x)
  with find_Some_set [OF Some] show ?thesis by simp
qed

lemma uploadFile_item:
  assumes "i < length (files s)" "item_id (files s ! i) = fileId"
  shows "files (uploadFile opts up started ended fileId s) ! i
     = (case fst (uploadWithRetry up (maxRetries opts)) of
          Inr result \<Rightarrow> mark_completed ended result (mark_uploading started (files s ! i))
        | Inl err \<Rightarrow> mark_failed opts ended err (mark_uploading started (files s ! i)))"
proof -
  from find_Some_if_nth [of i "files s" "\<lambda>f. item_id f = fileId"] assms
  obtain x where x: "find (\<lambda>f. item_id f = fileId) (files s) = Some x" "item_id x = fileId"
    by blast
  have mid: "item_id (mark_uploading started (files s ! i)) = fileId"
    using assms(2) by (simp add: mark_uploading_def)
  show ?thesis
  proof (cases "fst (uploadWithRetry up (maxRetries opts))")
    case (Inl err)
    then show ?thesis using x assms mid
      by (simp add: uploadFile_def files_settle_err files_begin)
  next
    case (Inr result)
    then show ?thesis using x assms mid
      by (simp add: uploadFile_def files_settle_ok files_begin)
  qed
qed

lemma retry_two_failures:
  assumes "up 0 = Inl e0" "retryable e0" "up 1 = Inl e1" "retryable e1" "up 2 = Inr result"
  shows "uploadWithRetry up 3 = (Inr result, [0, 1, 2], [1000, 2000])"
  using assms by (simp add: uploadWithRetry_def RETRY_DELAYS_def)

lemma retry_not_retryable:
  assumes "up 0 = Inl e" "\<not> retryable e" "0 \<le> maxR"
  shows "uploadWithRetry up maxR = (Inl (Some e), [0], [])"
  using assms by (simp add: uploadWithRetry_def)

text \<open>
  C4, as the code has it. With \<open>maxRetries = 3\<close>, when the transfer of an item fails
  with a retryable error on the first and on the second attempt and succeeds on the
  third, the item ends with status \<open>Completed\<close> and with the \<open>retryCount\<close> it had
  before (0 for a file just added): the retries happen inside \<open>uploadWithRetry\<close>,
  which makes three attempts and waits 1000 and 2000 ms, and the hook does not count
  them.
\<close>

theorem retry_then_success:
  assumes "maxRetries opts = 3"
    and "up 0 = Inl e0" and "retryable e0" and "up 1 = Inl e1" and "retryable e1"
    and "up 2 = Inr result"
    and "i < length (files s)" and "item_id (files s ! i) = fileId"
  shows "status (files (uploadFile opts up started ended fileId s) ! i) = Completed
    \<and> retryCount (files (uploadFile opts up started ended fileId s) ! i) = retryCount (files s ! i)
    \<and> snd (uploadWithRetry up (maxRetries opts)) = ([0, 1, 2], [1000, 2000])"
  using uploadFile_item [OF assms(7,8), of opts up started ended]
    retry_two_failures [where up = up, OF assms(2-6)] assms(1)
  by (simp add: mark_completed_def mark_uploading_def)

text \<open>
  C5, as the code has it. When the first attempt fails with an error that is not
  retryable, \<open>uploadWithRetry\<close> makes no other attempt and waits for no delay, and
  the item ends with status \<open>Failed\<close>, the message of the error, and \<open>retryCount\<close>
  set to \<open>maxRetries\<close>: the hook marks every final failure as having used all retries.
\<close>

theorem non_retryable_failure:
  assumes "0 \<le> maxRetries opts"
    and "up 0 = Inl e" and "\<not> retryable e"
    and "i < length (files s)" and "item_id (files s ! i) = fileId"
  shows "status (files (uploadFile opts up started ended fileId s) ! i) = Failed
    \<and> retryCount (files (uploadFile opts up started ended fileId s) ! i) = maxRetries opts
    \<and> error (files (uploadFile opts up started ended fileId s) ! i) = Some (message e)
    \<and> snd (uploadWithRetry up (maxRetries opts)) = ([0], [])"
  using uploadFile_item [OF assms(4,5), of opts up started ended]
    retry_not_retryable [where up = up, OF assms(2,3,1)]
  by (simp add: mark_failed_def mark_uploading_def)

lemmas upload_defs =
  uploadFile_def uploadWithRetry_def RETRY_DELAYS_def flaky_def cancelled_def user_cancelled_def
  one_pending_def

theorem retry_then_success_witness:
  "maxRetries demo_opts = 3
   \<and> flaky 0 = Inl network_error \<and> retryable network_error
   \<and> flaky 1 = Inl network_error
   \<and> flaky 2 = Inr \<lparr>res_fileId = ''a'', res_s3Key = Some ''k1'',
                       res_fileUrl = Some ''https://files/k1''\<rparr>
   \<and> 0 < length (files one_pending) \<and> item_id (files one_pending ! 0) = ''a''
   \<and> status (files (uploadFile demo_opts flaky 1 9 ''a'' one_pending) ! 0) = Completed
   \<and> retryCount (files (uploadFile demo_opts flaky 1 9 ''a'' one_pending) ! 0)
        = retryCount (files one_pending ! 0)
   \<and> snd (uploadWithRetry flaky (maxRetries demo_opts)) = ([0, 1, 2], [1000, 2000])"
proof -
  have h1: "maxRetries demo_opts = 3" by (simp add: demo_opts_def)
  have h2: "flaky 0 = Inl network_error" by (simp add: flaky_def)
  have h3: "retryable network_error" by (simp add: network_error_def)
  have h4: "flaky 1 = Inl network_error" by (simp add: flaky_def)
  have h5: "flaky 2 = Inr \<lparr>res_fileId = ''a'', res_s3Key = Some ''k1'',
                       res_fileUrl = Some ''https://files/k1''\<rparr>" by (simp add: flaky_def)
  have h6: "0 < length (files one_pending)" by (simp add: one_pending_def hook_defs)
  have h7: "item_id (files one_pending ! 0) = ''a''" by (simp add: one_pending_def hook_defs)
  note c = retry_then_success [where up = flaky and opts = demo_opts and s = one_pending
      and started = 1 and ended = 9, OF h1 h2 h3 h4 h3 h5 h6 h7]
  show ?thesis by (intro conjI h1 h2 h3 h4 h5 h6 h7 conjunct1 [OF c]
      conjunct1 [OF conjunct2 [OF c]] conjunct2 [OF conjunct2 [OF c]])
qed

text \<open>
  C4 as stated fails: after two retryable failures and a success the item is completed
  with \<open>retryCount = 0\<close>, not 2.
\<close>

theorem retryCount_not_counted:
  "maxRetries demo_opts = 3
   \<and> flaky 0 = Inl network_error \<and> flaky 1 = Inl network_error \<and> retryable network_error
   \<and> fst (uploadWithRetry flaky 3)
        = Inr \<lparr>res_fileId = ''a'', res_s3Key = Some ''k1'', res_fileUrl = Some ''https://files/k1''\<rparr>
   \<and> status (files (uploadFile demo_opts flaky 1 9 ''a'' one_pending) ! 0) = Completed
   \<and> retryCount (files (uploadFile demo_opts flaky 1 9 ''a'' one_pending) ! 0) = 0"
  by (simp add: upload_defs demo_defs hook_defs)

theorem non_retryable_failure_witness:
  "0 \<le> maxRetries demo_opts
   \<and> cancelled 0 = Inl user_cancelled \<and> \<not> retryable user_cancelled
   \<and> 0 < length (files one_pending) \<and> item_id (files one_pending ! 0) = ''a''
   \<and> status (files (uploadFile demo_opts cancelled 1 9 ''a'' one_pending) ! 0) = Failed
   \<and> retryCount (files (uploadFile demo_opts cancelled 1 9 ''a'' one_pending) ! 0)
        = maxRetries demo_opts
   \<and> error (files (uploadFile demo_opts cancelled 1 9 ''a'' one_pending) ! 0)
        = Some (message user_cancelled)
   \<and> snd (uploadWithRetry cancelled (maxRetries demo_opts)) = ([0], [])"
proof -
  have h1: "0 \<le> maxRetries demo_opts" by (simp add: demo_opts_def)
  have h2: "cancelled 0 = Inl user_cancelled" by (simp add: cancelled_def)
  have h3: "\<not> retryable user_cancelled" by (simp add: user_cancelled_def)
  have h4: "0 < length (files one_pending)" by (simp add: one_pending_def hook_defs)
  have h5: "item_id (files one_pending ! 0) = ''a''" by (simp add: one_pending_def hook_defs)
  note c = non_retryable_failure [where up = cancelled and opts = demo_opts and s = one_pending
      and started = 1 and ended = 9, OF h1 h2 h3 h4 h5]
  show ?thesis by (intro conjI h1 h2 h3 h4 h5 conjunct1 [OF c]
      conjunct1 [OF conjunct2 [OF c]] conjunct1 [OF conjunct2 [OF conjunct2 [OF c]]]
      conjunct2 [OF conjunct2 [OF conjunct2 [OF c]]])
qed

text \<open>
  C5 as stated fails: a cancelled first attempt leaves the item failed with
  \<open>retryCount = 3\<close>, the configured maximum, not 0.
\<close>

theorem retryCount_set_to_max:
  "cancelled 0 = Inl user_cancelled \<and> \<not> retryable user_cancelled
   \<and> retryCount (files one_pending ! 0) = 0
   \<and> status (files (uploadFile demo_opts cancelled 1 9 ''a'' one_pending) ! 0) = Failed
   \<and> retryCount (files (uploadFile demo_opts cancelled 1 9 ''a'' one_pending) ! 0) = 3"
  by (simp add: upload_defs demo_defs hook_defs)

subsection \<open>Classification of an error response\<close>

text \<open>
  C3, as the code has it. For a response with a status from 400 to 499 the handler
  rejects, and the error is not retryable when the body does not parse as JSON or is
  \<open>null\<close>, or when the body sets \<open>error.retryable\<close> to \<open>false\<close>; for every other
  parsed body the error is retryable, also when the body says nothing about it.
\<close>

theorem client_error_classification:
  assumes "400 \<le> xhr_status" and "xhr_status \<le> 499"
  shows "(parsed = None \<or> parsed = Some JNull
            \<longrightarrow> rejected_retryable (onload xhr_status statusText parsed) = Some (JBool False))
    \<and> (parsed = Some body \<and> \<not> nullish body \<and> get (error_body body) ''retryable'' = JBool False
            \<longrightarrow> rejected_retryable (onload xhr_status statusText parsed) = Some (JBool False))
    \<and> (parsed = Some body \<and> \<not> nullish body \<and> get (error_body body) ''retryable'' \<noteq> JBool False
            \<longrightarrow> rejected_retryable (onload xhr_status statusText parsed) = Some (JBool True))"
  using assms by (auto simp: onload_def error_body_def Let_def)

theorem client_error_classification_witness:
  "(400::nat) \<le> 404 \<and> (404::nat) \<le> 499
   \<and> rejected_retryable (onload 404 ''Not Found'' None) = Some (JBool False)
   \<and> \<not> nullish refused_body \<and> get (error_body refused_body) ''retryable'' = JBool False
   \<and> rejected_retryable (onload 404 ''Not Found'' (Some refused_body)) = Some (JBool False)
   \<and> \<not> nullish not_found_body \<and> get (error_body not_found_body) ''retryable'' \<noteq> JBool False
   \<and> rejected_retryable (onload 404 ''Not Found'' (Some not_found_body)) = Some (JBool True)"
proof -
  have h1: "(400::nat) \<le> 404" and h2: "(404::nat) \<le> 499" by simp_all
  have r1: "\<not> nullish refused_body" by (simp add: refused_body_def)
  have r2: "get (error_body refused_body) ''retryable'' = JBool False"
    by (simp add: refused_body_def error_body_def or_else_def)
  have n1: "\<not> nullish not_found_body" by (simp add: not_found_body_def)
  have n2: "get (error_body not_found_body) ''retryable'' \<noteq> JBool False"
    by (simp add: not_found_body_def error_body_def or_else_def)
  from client_error_classification [OF h1 h2, of None "''Not Found''" JNull]
  have c1: "rejected_retryable (onload 404 ''Not Found'' None) = Some (JBool False)" by simp
  from client_error_classification [OF h1 h2, of "Some refused_body" "''Not Found''" refused_body] r1 r2
  have c2: "rejected_retryable (onload 404 ''Not Found'' (Some refused_body)) = Some (JBool False)"
    by simp
  from client_error_classification [OF h1 h2, of "Some not_found_body" "''Not Found''" not_found_body]
    n1 n2
  have c3: "rejected_retryable (onload 404 ''Not Found'' (Some not_found_body)) = Some (JBool True)"
    by simp
  show ?thesis by (intro conjI h1 h2 r1 r2 n1 n2 c1 c2 c3)
qed

text \<open>
  C3 as stated fails: a 404 whose error body has no \<open>retryable\<close> field is rejected
  with \<open>retryable = true\<close>.
\<close>

theorem client_error_default_retryable:
  "get (error_body not_found_body) ''retryable'' = JUndefined
   \<and> onload 404 ''Not Found'' (Some not_found_body)
        = Reject (JStr ''File type not allowed'') (JBool True) (JStr ''HTTP_404'')"
  by (simp add: onload_def error_body_def not_found_body_def or_else_def http_code_def
      http_message_def string_of_nat.simps)

end
